theory Spec2Isabelle
  imports Complex_Main "HOL-Library.AList"
begin

section \<open>Strings, the runtime and the data model\<close>

text \<open>
  A Python \<open>str\<close> is a sequence of Unicode code points; \<open>len\<close> counts code points.
  A code point is a natural number, a string a list of them.

  Counts and scores are Python integers and floats; here they are exact rational
  numbers, so the rounding of float arithmetic is not part of the model.
\<close>

type_synonym uchar = nat
type_synonym ustring = "uchar list"

definition ustr :: "string \<Rightarrow> ustring" where
  "ustr s = map of_char s"

abbreviation SPACE :: uchar where "SPACE \<equiv> 32"
abbreviation NEWLINE :: uchar where "NEWLINE \<equiv> 10"
abbreviation TAB :: uchar where "TAB \<equiv> 9"

text \<open>The full-width comma U+FF0C that character mode drops.\<close>

abbreviation FWCOMMA :: uchar where "FWCOMMA \<equiv> 65292"

datatype error =
    KeyError
  | TypeError
  | UnboundLocalError
  | OSError
  | PageRankError

definition ebind :: "error + 'a \<Rightarrow> ('a \<Rightarrow> error + 'b) \<Rightarrow> error + 'b" where
  "ebind m f = (case m of Inl e \<Rightarrow> Inl e | Inr x \<Rightarrow> f x)"

subsection \<open>Dictionaries\<close>

text \<open>
  A Python \<open>dict\<close> keeps its keys in insertion order, and the order of
  \<open>node_ranks\<close> decides ties in the output, so a dict is an association list:
  \<open>d[k] = v\<close> is \<^const>\<open>AList.update\<close> (in place for a present key, appended for a new
  one), \<open>d[k]\<close> raises \<open>KeyError\<close> for an absent key.
\<close>

type_synonym ('k, 'v) dict = "('k \<times> 'v) list"

definition dict_get :: "('k, 'v) dict \<Rightarrow> 'k \<Rightarrow> error + 'v" where
  "dict_get d k = (case map_of d k of None \<Rightarrow> Inl KeyError | Some v \<Rightarrow> Inr v)"

text \<open>\<open>dict(pairs)\<close>: later pairs overwrite earlier ones, keys keep their first position.\<close>

definition dict_of :: "('k \<times> 'v) list \<Rightarrow> ('k, 'v) dict" where
  "dict_of ps = foldl (\<lambda>d (k, v). AList.update k v d) [] ps"

text \<open>\<open>Counter.update({k: 1})\<close>: add one to the count of \<open>k\<close>, a missing key counting 0.\<close>

definition counter_add :: "'k \<Rightarrow> ('k, rat) dict \<Rightarrow> ('k, rat) dict" where
  "counter_add k d = AList.update k ((case map_of d k of None \<Rightarrow> 0 | Some c \<Rightarrow> c) + 1) d"

definition counter :: "'k list \<Rightarrow> ('k, rat) dict" where
  "counter xs = foldl (\<lambda>d k. counter_add k d) [] xs"

text \<open>
  \<open>sorted(xs, key=f, reverse=True)\<close>: descending by key, elements of equal key in
  their original order.
\<close>

definition sorted_desc :: "('a \<Rightarrow> rat) \<Rightarrow> 'a list \<Rightarrow> 'a list" where
  "sorted_desc f xs = rev (sort_key f (rev xs))"

text \<open>\<open>xs[:k]\<close>: a negative \<open>k\<close> counts from the end.\<close>

definition py_prefix :: "int \<Rightarrow> 'a list \<Rightarrow> 'a list" where
  "py_prefix k xs = (if 0 \<le> k then take (nat k) xs else take (nat (int (length xs) + k)) xs)"

subsection \<open>The token graph\<close>

text \<open>
  \<open>networkx.DiGraph\<close> as the code uses it: nodes in insertion order, created by
  \<open>add_edge\<close>; one weight per edge.
\<close>

record graph =
  g_nodes :: "ustring list"
  g_edges :: "((ustring \<times> ustring), int) dict"

definition empty_graph :: graph where
  "empty_graph = \<lparr>g_nodes = [], g_edges = []\<rparr>"

definition add_node :: "ustring \<Rightarrow> ustring list \<Rightarrow> ustring list" where
  "add_node u ns = (if u \<in> set ns then ns else ns @ [u])"

definition has_edge :: "graph \<Rightarrow> ustring \<Rightarrow> ustring \<Rightarrow> bool" where
  "has_edge G u v = (map_of (g_edges G) (u, v) \<noteq> None)"

definition add_edge :: "graph \<Rightarrow> ustring \<Rightarrow> ustring \<Rightarrow> int \<Rightarrow> graph" where
  "add_edge G u v w =
     \<lparr>g_nodes = add_node v (add_node u (g_nodes G)),
      g_edges = AList.update (u, v) w (g_edges G)\<rparr>"

definition remove_selfloops :: "graph \<Rightarrow> graph" where
  "remove_selfloops G = G\<lparr>g_edges := [e \<leftarrow> g_edges G. fst (fst e) \<noteq> snd (fst e)]\<rparr>"

subsection \<open>The runtime\<close>

text \<open>
  What the code takes from outside the repository: Python's Unicode tables
  (\<open>\w\<close> of \<open>re\<close>, \<open>str.isdigit\<close>, the whitespace \<open>str.strip\<close> removes,
  \<open>str.lower\<close>), \<open>networkx.pagerank\<close> (\<open>None\<close> when it raises), the file system
  (\<open>None\<close> when the file cannot be read) and the packaged default stopword list.
\<close>

record runtime =
  isword :: "uchar \<Rightarrow> bool"
  isdigit :: "uchar \<Rightarrow> bool"
  isspace :: "uchar \<Rightarrow> bool"
  lower :: "ustring \<Rightarrow> ustring"
  pagerank :: "graph \<Rightarrow> rat \<Rightarrow> int \<Rightarrow> (ustring, rat) dict \<Rightarrow> (ustring, rat) dict option"
  read_file :: "ustring \<Rightarrow> ustring option"
  stopwords_generic :: "ustring set"

text \<open>
  The tables on the code points below 128, where they are those of CPython; the
  concrete inputs below use only such code points, and no graph large enough for
  \<open>pagerank\<close>.
\<close>

definition ascii_lower :: "uchar \<Rightarrow> uchar" where
  "ascii_lower c = (if 65 \<le> c \<and> c \<le> 90 then c + 32 else c)"

definition ascii :: runtime where
  "ascii = \<lparr>
     isword = (\<lambda>c. (48 \<le> c \<and> c \<le> 57) \<or> (65 \<le> c \<and> c \<le> 90) \<or> c = 95 \<or> (97 \<le> c \<and> c \<le> 122)),
     isdigit = (\<lambda>c. 48 \<le> c \<and> c \<le> 57),
     isspace = (\<lambda>c. (9 \<le> c \<and> c \<le> 13) \<or> (28 \<le> c \<and> c \<le> 32)),
     lower = map ascii_lower,
     pagerank = (\<lambda>G a m p. None),
     read_file = (\<lambda>p. None),
     stopwords_generic = {}\<rparr>"

subsection \<open>Configuration and detector state\<close>

text \<open>
  The hyperparameters as the pipeline reads them, once the constructor has filled in
  the defaults.
\<close>

record hyper =
  token_prune_len :: int
  num_keywords :: int
  alpha :: rat
  max_iter :: int
  merge_threshold :: rat
  deduplication :: bool
  stopwords :: "ustring set"

text \<open>
  The instance fields the pipeline writes. \<open>full_tokens\<close> is \<open>None\<close> after
  \<open>del self.full_tokens\<close>.
\<close>

record detector =
  hyperparameters :: hyper
  document :: ustring
  full_tokens :: "ustring list option"
  tokens :: "ustring list"
  term_counts :: "(ustring, rat) dict"
  sorted_terms_tf :: "(ustring \<times> rat) list"
  bigram_counts :: "(ustring \<times> ustring, rat) dict"
  G :: graph
  node_ranks :: "(ustring, rat) dict"
  final_keywords :: "(ustring \<times> rat) list"

section \<open>The tokenizer\<close>

text \<open>
  \<open>re.findall\<close> of \<open>\b\w\w+\b\<close>: \<open>\w+\<close> is greedy and must end at a word boundary,
  so a match is a maximal run of word characters, of length at least 2; a run of
  length 1 matches nowhere. \<open>word_runs\<close> scans the maximal runs left to right.
\<close>

fun word_runs :: "(uchar \<Rightarrow> bool) \<Rightarrow> ustring \<Rightarrow> ustring \<Rightarrow> ustring list" where
  "word_runs w cur [] = (if cur = [] then [] else [cur])"
| "word_runs w cur (c # cs) =
     (if w c then word_runs w (cur @ [c]) cs
      else (if cur = [] then [] else [cur]) @ word_runs w [] cs)"

definition findall :: "runtime \<Rightarrow> ustring \<Rightarrow> ustring list" where
  "findall E s = [r \<leftarrow> word_runs (isword E) [] s. 2 \<le> length r]"

definition strip :: "runtime \<Rightarrow> ustring \<Rightarrow> ustring" where
  "strip E s = rev (dropWhile (isspace E) (rev (dropWhile (isspace E) s)))"

definition str_isdigit :: "runtime \<Rightarrow> ustring \<Rightarrow> bool" where
  "str_isdigit E s = (s \<noteq> [] \<and> list_all (isdigit E) s)"

text \<open>
  The local \<open>space_factor\<close>. It is a quotient of two lengths compared with \<open>0.5\<close>,
  which the float division decides as the exact quotient does.
\<close>

definition space_factor :: "runtime \<Rightarrow> ustring \<Rightarrow> rat" where
  "space_factor E doc =
     (let whitespace_count = count_list doc SPACE;
          ft = findall E doc
      in if 0 < length ft
         then rat_of_nat whitespace_count / rat_of_nat (length ft)
         else 0)"

definition tokenize :: "runtime \<Rightarrow> detector \<Rightarrow> detector" where
  "tokenize E st =
     (let ft = findall E (document st)
      in if space_factor E (document st) < 1 / 2
         then st\<lparr>full_tokens := Some ft,
                 tokens := [x \<leftarrow> [x \<leftarrow> map (\<lambda>c. [c]) (strip E (document st)).
                                     \<not> x = [SPACE] \<and> \<not> x = [NEWLINE] \<and> \<not> x = [FWCOMMA]].
                            \<not> str_isdigit E x \<and> SPACE \<notin> set x]\<rparr>
         else st\<lparr>tokens := [x \<leftarrow> ft. \<not> str_isdigit E x], full_tokens := None\<rparr>)"

section \<open>Term counts and the token merger\<close>

definition compute_tf_scores :: "runtime \<Rightarrow> detector \<Rightarrow> ustring option \<Rightarrow> detector" where
  "compute_tf_scores E st doc =
     (let st1 = (case doc of None \<Rightarrow> st | Some d \<Rightarrow> st\<lparr>tokens := findall E d\<rparr>);
          term_counter = counter (tokens st1)
      in st1\<lparr>term_counts := term_counter,
              sorted_terms_tf := sorted_desc snd term_counter\<rparr>)"

text \<open>
  The comparison \<open>bgs < merge_threshold\<close>. \<open>bgs\<close> is a numpy scalar, so a zero
  denominator gives \<open>inf\<close> or \<open>nan\<close> and no exception, and either compares false.
\<close>

definition bgs_of :: "rat \<Rightarrow> rat \<Rightarrow> rat \<Rightarrow> rat" where
  "bgs_of count1 count2 bgc = (\<bar>count1 - bgc\<bar> + \<bar>count2 - bgc\<bar>) / (count1 + count2)"

definition bgs_below :: "rat \<Rightarrow> rat \<Rightarrow> rat \<Rightarrow> rat \<Rightarrow> bool" where
  "bgs_below count1 count2 bgc thr =
     (count1 + count2 \<noteq> 0 \<and> bgs_of count1 count2 bgc < thr)"

type_synonym merge_state = "ustring list \<times> ustring set \<times> (ustring, rat) dict"

text \<open>
  One iteration of the loop of \<open>merge_tokens\<close>, on \<open>tmp_tokens\<close>, \<open>merged\<close> and
  \<open>self.term_counts\<close>.
\<close>

definition merge_step ::
  "hyper \<Rightarrow> (ustring \<times> ustring, rat) dict \<Rightarrow> ustring \<Rightarrow> ustring \<Rightarrow> merge_state
     \<Rightarrow> error + merge_state" where
  "merge_step hp bc token1 token2 s =
     (case s of (tmp_tokens, merged, tc) \<Rightarrow>
        ebind (dict_get tc token1) (\<lambda>count1.
        ebind (dict_get tc token2) (\<lambda>count2.
        ebind (dict_get bc (token1, token2)) (\<lambda>bgc.
          if token1 \<notin> stopwords hp \<and> token2 \<notin> stopwords hp then
            if bgs_below count1 count2 bgc (merge_threshold hp) then
              if int (length token2) > token_prune_len hp
                 \<and> int (length token1) > token_prune_len hp then
                (let to_add = token1 @ [SPACE] @ token2;
                     tc1 = AList.update to_add bgc tc
                 in ebind (dict_get tc1 token1) (\<lambda>c1.
                      let tc2 = AList.update token1 (c1 * merge_threshold hp) tc1
                      in ebind (dict_get tc2 token2) (\<lambda>c2.
                           Inr (tmp_tokens @ [to_add],
                                insert token2 (insert token1 merged),
                                AList.update token2 (c2 * merge_threshold hp) tc2))))
              else Inr s
            else Inr s
          else Inr (tmp_tokens @ [token1, token2], merged, tc)))))"

text \<open>
  The loop \<open>for enx in range(len(self.tokens) - 1)\<close> on the pairs
  \<open>self.tokens[enx]\<close>, \<open>self.tokens[enx + 1]\<close>: \<open>merge_upto hp bc ts n s\<close> is the state
  after the first \<open>n\<close> iterations; an exception ends the loop.
\<close>

fun merge_upto ::
  "hyper \<Rightarrow> (ustring \<times> ustring, rat) dict \<Rightarrow> ustring list \<Rightarrow> nat \<Rightarrow> merge_state
     \<Rightarrow> error + merge_state" where
  "merge_upto hp bc ts 0 s = Inr s"
| "merge_upto hp bc ts (Suc enx) s =
     ebind (merge_upto hp bc ts enx s) (merge_step hp bc (ts ! enx) (ts ! Suc enx))"

definition two_grams :: "'a list \<Rightarrow> ('a \<times> 'a) list" where
  "two_grams ts = zip ts (tl ts)"

definition merge_tokens :: "detector \<Rightarrow> error + detector" where
  "merge_tokens st =
     (let hp = hyperparameters st;
          bc = counter (two_grams (tokens st));
          st1 = st\<lparr>bigram_counts := bc\<rparr>
      in case merge_upto hp bc (tokens st) (length (tokens st) - 1) ([], {}, term_counts st) of
           Inl e \<Rightarrow> Inl e
         | Inr (tmp_tokens, merged, tc) \<Rightarrow>
             (let tmp2 = (if deduplication hp
                          then (let to_drop = set [t \<leftarrow> tmp_tokens. t \<in> merged]
                                in [x \<leftarrow> tmp_tokens. x \<notin> to_drop])
                          else tmp_tokens)
              in Inr (st1\<lparr>term_counts := tc, tokens := tmp2\<rparr>)))"

section \<open>Graph construction and ranking\<close>

text \<open>The loop of \<open>get_document_graph\<close>: one edge per adjacent pair of lowercased tokens.\<close>

fun build_graph :: "runtime \<Rightarrow> int \<Rightarrow> ustring list \<Rightarrow> graph \<Rightarrow> graph" where
  "build_graph E weight (t1 # t2 # ts) g =
     (let node_u = lower E t1; node_v = lower E t2
      in build_graph E weight (t2 # ts)
           (if has_edge g node_u node_v
            then g\<lparr>g_edges := AList.update (node_u, node_v)
                                 (the (map_of (g_edges g) (node_u, node_v)) + weight) (g_edges g)\<rparr>
            else add_edge g node_u node_v weight))"
| "build_graph E weight ts g = g"

text \<open>The graph once the self-loops are removed, as \<open>self.G\<close> holds it from then on.\<close>

definition graph_of_tokens :: "runtime \<Rightarrow> int \<Rightarrow> ustring list \<Rightarrow> graph" where
  "graph_of_tokens E weight ts = remove_selfloops (build_graph E weight ts empty_graph)"

text \<open>\<open>{a: self.term_counts[a] for a in self.tokens}\<close>.\<close>

fun personalization_of ::
  "(ustring, rat) dict \<Rightarrow> ustring list \<Rightarrow> (ustring, rat) dict \<Rightarrow> error + (ustring, rat) dict" where
  "personalization_of tc [] acc = Inr acc"
| "personalization_of tc (a # ts) acc =
     ebind (dict_get tc a) (\<lambda>v. personalization_of tc ts (AList.update a v acc))"

definition scale_by_length :: "(ustring \<times> rat) list \<Rightarrow> (ustring, rat) dict" where
  "scale_by_length nr =
     (let token_list = map fst nr;
          rank_distribution = map snd nr;
          token_length_distribution = map (\<lambda>(x, y). rat_of_nat (length x)) nr;
          final_scores = map (\<lambda>(r, l). r * l) (zip rank_distribution token_length_distribution)
      in dict_of (zip token_list final_scores))"

definition get_document_graph :: "runtime \<Rightarrow> detector \<Rightarrow> int \<Rightarrow> error + detector" where
  "get_document_graph E st weight =
     (let hp = hyperparameters st;
          g = graph_of_tokens E weight (tokens st);
          st1 = st\<lparr>G := g\<rparr>
      in ebind (personalization_of (term_counts st) (tokens st) []) (\<lambda>personalization.
         ebind (if int (length (g_nodes g)) > num_keywords hp
                then (case pagerank E g (alpha hp) (max_iter hp) personalization of
                        None \<Rightarrow> Inl PageRankError
                      | Some r \<Rightarrow> Inr r)
                else Inr (map (\<lambda>k. (k, 1)) (g_nodes g))) (\<lambda>nr.
         Inr (st1\<lparr>node_ranks := scale_by_length nr\<rparr>))))"

section \<open>Input, the keyword combiner and the entry point\<close>

datatype pydoc = PyStr ustring | PyList "ustring list"

text \<open>\<open>s.split("\n")\<close>, with the piece read so far in \<open>cur\<close>.\<close>

fun split_on :: "uchar \<Rightarrow> ustring \<Rightarrow> ustring \<Rightarrow> ustring list" where
  "split_on sep cur [] = [cur]"
| "split_on sep cur (c # cs) =
     (if c = sep then cur # split_on sep [] cs else split_on sep (cur @ [c]) cs)"

fun join :: "ustring \<Rightarrow> ustring list \<Rightarrow> ustring" where
  "join sep [] = []"
| "join sep [x] = x"
| "join sep (x # y # ys) = x @ sep @ join sep (y # ys)"

text \<open>
  \<open>parse_input\<close>. With an input type that is neither \<open>"file"\<close> nor \<open>"string"\<close> the
  variable \<open>full_document\<close> is never bound and the \<open>return\<close> raises; \<open>open\<close> of a
  list raises \<open>TypeError\<close>.
\<close>

definition parse_input :: "runtime \<Rightarrow> pydoc \<Rightarrow> ustring \<Rightarrow> error + ustring list" where
  "parse_input E doc input_type =
     (if input_type = ustr ''file'' then
        (case doc of
           PyList ls \<Rightarrow> Inl TypeError
         | PyStr path \<Rightarrow>
             (case read_file E path of
                None \<Rightarrow> Inl OSError
              | Some content \<Rightarrow> Inr (split_on NEWLINE [] content)))
      else if input_type = ustr ''string'' then
        (case doc of
           PyList ls \<Rightarrow> Inr ls
         | PyStr s \<Rightarrow> Inr (split_on NEWLINE [] s))
      else Inl UnboundLocalError)"

text \<open>The loop of \<open>combine_keywords\<close>, on \<open>combined_keywords\<close> and the keys of \<open>appeared_tokens\<close>.\<close>

fun combine_loop ::
  "runtime \<Rightarrow> hyper \<Rightarrow> (ustring \<times> rat) list \<Rightarrow> (ustring \<times> rat) list \<Rightarrow> ustring set
     \<Rightarrow> (ustring \<times> rat) list" where
  "combine_loop E hp [] combined appeared = combined"
| "combine_loop E hp ((ranked_node, score) # rest) combined appeared =
     (if lower E ranked_node \<in> stopwords hp \<or> length ranked_node \<le> 2
      then combine_loop E hp rest combined appeared
      else combine_loop E hp rest
             (if ranked_node \<notin> appeared then combined @ [(ranked_node, score)] else combined)
             (insert ranked_node appeared))"

definition combine_keywords :: "runtime \<Rightarrow> detector \<Rightarrow> detector" where
  "combine_keywords E st =
     (let combined_keywords = combine_loop E (hyperparameters st) (node_ranks st) [] {}
      in st\<lparr>final_keywords := sorted_desc snd combined_keywords\<rparr>)"

definition find_keywords ::
  "runtime \<Rightarrow> detector \<Rightarrow> pydoc \<Rightarrow> ustring \<Rightarrow> error + ((ustring \<times> rat) list \<times> detector)" where
  "find_keywords E st doc input_type =
     ebind (parse_input E doc input_type) (\<lambda>lines.
       let st1 = st\<lparr>document := join [SPACE] lines\<rparr>;
           st2 = tokenize E st1;
           st3 = compute_tf_scores E st2 None
       in ebind (merge_tokens st3) (\<lambda>st4.
          ebind (get_document_graph E st4 1) (\<lambda>st5.
            let st6 = combine_keywords E st5
            in Inr (py_prefix (num_keywords (hyperparameters st6)) (final_keywords st6), st6))))"

section \<open>The constructor\<close>

text \<open>
  \<open>__init__\<close> keeps a reference to the mapping it is given and writes the missing
  options into that very object, so the mappings live in a store, addressed by
  reference. The default value \<open>{}\<close> of the parameter is one object, created when the
  \<open>def\<close> is evaluated; \<open>dflt\<close> is its address.
\<close>

datatype hvalue = VInt int | VNum rat | VBool bool | VSet "ustring set"

type_synonym hdict = "(string, hvalue) dict"
type_synonym addr = nat
type_synonym store = "addr \<rightharpoonup> hdict"

record detector_obj =
  verbose :: bool
  hyperparameters_ref :: addr

text \<open>\<open>if k not in d: d[k] = v\<close>.\<close>

definition set_default :: "string \<Rightarrow> hvalue \<Rightarrow> hdict \<Rightarrow> hdict" where
  "set_default k v d = (if k \<in> fst ` set d then d else AList.update k v d)"

definition fill_defaults :: "runtime \<Rightarrow> hdict \<Rightarrow> hdict" where
  "fill_defaults E d =
     set_default ''stopwords'' (VSet (stopwords_generic E))
       (set_default ''deduplication'' (VBool True)
         (set_default ''merge_threshold'' (VNum (1 / 2))
           (set_default ''max_iter'' (VInt 100)
             (set_default ''alpha'' (VNum (1 / 10))
               (set_default ''num_keywords'' (VInt 10)
                 (set_default ''token_prune_len'' (VInt 1) d))))))"

text \<open>
  \<open>RakunKeyphraseDetector(hyperparameters, verbose)\<close>; \<open>arg = None\<close> is a call
  without the \<open>hyperparameters\<close> argument. The result is \<open>None\<close> for a reference to
  no object, which no Python program can hold.
\<close>

definition init ::
  "runtime \<Rightarrow> addr \<Rightarrow> store \<Rightarrow> addr option \<Rightarrow> bool \<Rightarrow> (store \<times> detector_obj) option" where
  "init E dflt H arg vb =
     (let a = (case arg of None \<Rightarrow> dflt | Some a' \<Rightarrow> a')
      in case H a of
           None \<Rightarrow> None
         | Some d \<Rightarrow> Some (H(a \<mapsto> fill_defaults E d),
                           \<lparr>verbose = vb, hyperparameters_ref = a\<rparr>))"

definition option_names :: "string list" where
  "option_names = [''token_prune_len'', ''num_keywords'', ''alpha'', ''max_iter'',
                   ''merge_threshold'', ''deduplication'', ''stopwords'']"

definition default_value :: "runtime \<Rightarrow> string \<Rightarrow> hvalue option" where
  "default_value E = map_of
     [(''token_prune_len'', VInt 1), (''num_keywords'', VInt 10), (''alpha'', VNum (1 / 10)),
      (''max_iter'', VInt 100), (''merge_threshold'', VNum (1 / 2)),
      (''deduplication'', VBool True), (''stopwords'', VSet (stopwords_generic E))]"

section \<open>Concrete detectors\<close>

text \<open>
  The stages of the pipeline never write the mapping; they take its content as a
  \<^typ>\<open>hyper\<close>. \<open>default_hyper\<close> is what the constructor leaves in an empty mapping.
\<close>

definition default_hyper :: "runtime \<Rightarrow> hyper" where
  "default_hyper E =
     \<lparr>token_prune_len = 1, num_keywords = 10, alpha = 1 / 10, max_iter = 100,
      merge_threshold = 1 / 2, deduplication = True, stopwords = stopwords_generic E\<rparr>"

text \<open>
  A detector before its first call. The fields besides \<open>hyperparameters\<close> do not
  exist yet; every stage reads only fields that an earlier stage of the same call
  has written, so their values here are never read.
\<close>

definition new_detector :: "hyper \<Rightarrow> detector" where
  "new_detector hp =
     \<lparr>hyperparameters = hp, document = [], full_tokens = None, tokens = [],
      term_counts = [], sorted_terms_tf = [], bigram_counts = [], G = empty_graph,
      node_ranks = [], final_keywords = []\<rparr>"

text \<open>The defaults, with the stopword \<open>is\<close>.\<close>

definition hp_is :: hyper where
  "hp_is = (default_hyper ascii)\<lparr>stopwords := {ustr ''is''}\<rparr>"

text \<open>
  Two facts of the Unicode tables that the treatment of blank documents rests on:
  the space is whitespace, and no whitespace character is a word character.
\<close>

definition whitespace_sane :: "runtime \<Rightarrow> bool" where
  "whitespace_sane E \<longleftrightarrow> isspace E SPACE \<and> (\<forall>c. isspace E c \<longrightarrow> \<not> isword E c)"

text \<open>
  What the loop of \<open>merge_tokens\<close> keeps true: every token of the sequence and
  every emitted token has a count, and every count is positive.
\<close>

definition counts_ok :: "ustring list \<Rightarrow> merge_state \<Rightarrow> bool" where
  "counts_ok ts s =
     (case s of (tmp_tokens, merged, tc) \<Rightarrow>
        (\<forall>t \<in> set ts \<union> set tmp_tokens. map_of tc t \<noteq> None)
        \<and> (\<forall>k v. map_of tc k = Some v \<longrightarrow> 0 < v))"

text \<open>Two token sequences, of the documents \<open>red cat red dog red fox\<close> and \<open>new york is big\<close>.\<close>

definition red_cat :: "ustring list" where
  "red_cat = [ustr ''red'', ustr ''cat'', ustr ''red'', ustr ''dog'', ustr ''red'', ustr ''fox'']"

definition new_york :: "ustring list" where
  "new_york = [ustr ''new'', ustr ''york'', ustr ''is'', ustr ''big'']"

section \<open>Basic facts\<close>

lemma merge_upto_numeral [simp]:
  "merge_upto hp bc ts (numeral k) s =
     ebind (merge_upto hp bc ts (pred_numeral k) s)
       (merge_step hp bc (ts ! pred_numeral k) (ts ! numeral k))"
  by (simp add: numeral_eq_Suc)

lemmas eval_defs =
  find_keywords_def parse_input_def tokenize_def space_factor_def findall_def
  graph_of_tokens_def ascii_def new_detector_def default_hyper_def hp_is_def str_isdigit_def Let_def ustr_def strip_def compute_tf_scores_def
  counter_def counter_add_def merge_tokens_def merge_step_def two_grams_def dict_get_def
  bgs_below_def bgs_of_def get_document_graph_def remove_selfloops_def empty_graph_def
  has_edge_def add_edge_def add_node_def scale_by_length_def dict_of_def combine_keywords_def
  sorted_desc_def py_prefix_def ascii_lower_def

lemmas pair_defs =
  new_york_def red_cat_def hp_is_def default_hyper_def ascii_def ustr_def two_grams_def
  counter_def counter_add_def

lemma ebind_Inl [simp]: "ebind (Inl e) f = Inl e"
  by (simp add: ebind_def)

lemma ebind_Inr [simp]: "ebind (Inr x) f = f x"
  by (simp add: ebind_def)

lemma ebind_eq_Inr: "ebind m f = Inr y \<longleftrightarrow> (\<exists>x. m = Inr x \<and> f x = Inr y)"
  by (cases m) simp_all

lemma ebind_eq_Inl: "ebind m f = Inl e \<longleftrightarrow> m = Inl e \<or> (\<exists>x. m = Inr x \<and> f x = Inl e)"
  by (cases m) simp_all

lemma length_py_prefix: "0 \<le> k \<Longrightarrow> length (py_prefix k xs) \<le> nat k"
  by (simp add: py_prefix_def)

lemma set_py_prefix: "set (py_prefix k xs) \<subseteq> set xs"
  by (auto simp: py_prefix_def dest: in_set_takeD)

lemma sorted_wrt_py_prefix: "sorted_wrt P xs \<Longrightarrow> sorted_wrt P (py_prefix k xs)"
  by (simp add: py_prefix_def)

lemma set_sorted_desc [simp]: "set (sorted_desc f xs) = set xs"
  by (simp add: sorted_desc_def)

lemma length_sorted_desc [simp]: "length (sorted_desc f xs) = length xs"
  by (simp add: sorted_desc_def)

lemma sorted_desc_sorted: "sorted_wrt (\<lambda>a b. f b \<le> f a) (sorted_desc f xs)"
proof -
  have "sorted (map f (sort_key f (rev xs)))" by simp
  then have "sorted_wrt (\<lambda>a b. f a \<le> f b) (sort_key f (rev xs))"
    by (simp only: sorted_map)
  then show ?thesis
    by (simp add: sorted_desc_def sorted_wrt_rev)
qed

lemma combine_loop_set:
  "p \<in> set (combine_loop E hp nr combined appeared) \<Longrightarrow>
     p \<in> set combined \<or> (p \<in> set nr \<and> lower E (fst p) \<notin> stopwords hp \<and> 3 \<le> length (fst p))"
proof (induction E hp nr combined appeared rule: combine_loop.induct)
  case (1 E hp combined appeared)
  then show ?case by simp
next
  case (2 E hp ranked_node score rest combined appeared)
  show ?case
  proof (cases "lower E ranked_node \<in> stopwords hp \<or> length ranked_node \<le> 2")
    case True
    with 2 show ?thesis by auto
  next
    case False
    with 2 have "p \<in> set (if ranked_node \<notin> appeared then combined @ [(ranked_node, score)] else combined)
        \<or> (p \<in> set rest \<and> lower E (fst p) \<notin> stopwords hp \<and> 3 \<le> length (fst p))"
      by simp
    with False show ?thesis by (auto split: if_splits)
  qed
qed

lemma hyperparameters_tokenize [simp]: "hyperparameters (tokenize E st) = hyperparameters st"
  by (simp add: tokenize_def Let_def)

lemma hyperparameters_compute_tf_scores [simp]:
  "hyperparameters (compute_tf_scores E st d) = hyperparameters st"
  by (simp add: compute_tf_scores_def Let_def split: option.splits)

lemma hyperparameters_merge_tokens:
  "merge_tokens st = Inr st' \<Longrightarrow> hyperparameters st' = hyperparameters st"
  by (auto simp: merge_tokens_def Let_def split: sum.splits prod.splits)

lemma hyperparameters_get_document_graph:
  "get_document_graph E st w = Inr st' \<Longrightarrow> hyperparameters st' = hyperparameters st"
  by (auto simp: get_document_graph_def Let_def ebind_eq_Inr)

lemma hyperparameters_combine_keywords [simp]:
  "hyperparameters (combine_keywords E st) = hyperparameters st"
  by (simp add: combine_keywords_def Let_def)

text \<open>What a returning call of the entry point went through.\<close>

lemma find_keywords_InrD:
  assumes "find_keywords E st doc input_type = Inr (out, st')"
  obtains lines st4 st5 where
    "parse_input E doc input_type = Inr lines"
    "merge_tokens (compute_tf_scores E (tokenize E (st\<lparr>document := join [SPACE] lines\<rparr>)) None) = Inr st4"
    "get_document_graph E st4 1 = Inr st5"
    "hyperparameters st5 = hyperparameters st"
    "st' = combine_keywords E st5"
    "out = py_prefix (num_keywords (hyperparameters st)) (final_keywords (combine_keywords E st5))"
proof -
  from assms obtain lines st4 st5 where
    p: "parse_input E doc input_type = Inr lines" and
    m: "merge_tokens (compute_tf_scores E (tokenize E (st\<lparr>document := join [SPACE] lines\<rparr>)) None) = Inr st4" and
    g: "get_document_graph E st4 1 = Inr st5" and
    r: "(out, st') = (py_prefix (num_keywords (hyperparameters (combine_keywords E st5)))
                        (final_keywords (combine_keywords E st5)), combine_keywords E st5)"
    by (auto simp: find_keywords_def Let_def ebind_eq_Inr)
  have h: "hyperparameters st5 = hyperparameters st"
    using hyperparameters_get_document_graph [OF g] hyperparameters_merge_tokens [OF m] by simp
  show thesis
    using that [OF p m g h] r h by simp
qed

text \<open>
  The document \<open>new york is big\<close> under the defaults with the stopword \<open>is\<close>:
  word mode; \<open>new\<close> and \<open>york\<close> merge, the pairs around \<open>is\<close> pass through, the
  merged \<open>york\<close> is dropped again; three nodes, so no ranking.
\<close>

lemma run_new_york:
  "map_sum id fst
     (find_keywords ascii (new_detector hp_is) (PyStr (ustr ''new york is big'')) (ustr ''string''))
   = Inr [(ustr ''new york'', 8), (ustr ''big'', 3)]"
  by (simp add: eval_defs)

section \<open>The returned list\<close>

text \<open>
  Claim C3. When the number of keywords asked for is not negative, the list that
  \<open>find_keywords\<close> returns has at most \<open>num_keywords\<close> entries, and its scores never
  increase from one position to the next.
\<close>

theorem find_keywords_bounded_sorted:
  assumes "find_keywords E st doc input_type = Inr (out, st')"
    and "0 \<le> num_keywords (hyperparameters st)"
  shows "length out \<le> nat (num_keywords (hyperparameters st))
         \<and> sorted_wrt (\<lambda>a b. b \<le> a) (map snd out)"
proof -
  from assms(1) obtain st5 where
    out: "out = py_prefix (num_keywords (hyperparameters st)) (final_keywords (combine_keywords E st5))"
    by (rule find_keywords_InrD)
  have "sorted_wrt (\<lambda>a b. snd b \<le> snd a) (final_keywords (combine_keywords E st5))"
    by (simp add: combine_keywords_def Let_def sorted_desc_sorted)
  then have "sorted_wrt (\<lambda>a b. snd b \<le> snd a) out"
    unfolding out by (rule sorted_wrt_py_prefix)
  then have "sorted_wrt (\<lambda>a b. b \<le> a) (map snd out)"
    by (simp add: sorted_wrt_map)
  moreover have "length out \<le> nat (num_keywords (hyperparameters st))"
    unfolding out using assms(2) by (rule length_py_prefix)
  ultimately show ?thesis by simp
qed

theorem find_keywords_bounded_sorted_witness:
  "0 \<le> num_keywords (hyperparameters (new_detector hp_is))
   \<and> map_sum id fst
        (find_keywords ascii (new_detector hp_is) (PyStr (ustr ''new york is big'')) (ustr ''string''))
      = Inr [(ustr ''new york'', 8), (ustr ''big'', 3)]
   \<and> length [(ustr ''new york'', 8 :: rat), (ustr ''big'', 3)]
        \<le> nat (num_keywords (hyperparameters (new_detector hp_is)))
   \<and> sorted_wrt (\<lambda>a b. b \<le> a) (map snd [(ustr ''new york'', 8 :: rat), (ustr ''big'', 3)])"
proof -
  let ?r = "find_keywords ascii (new_detector hp_is) (PyStr (ustr ''new york is big'')) (ustr ''string'')"
  obtain st' where h: "?r = Inr ([(ustr ''new york'', 8), (ustr ''big'', 3)], st')"
    using run_new_york by (cases ?r) auto
  have k: "0 \<le> num_keywords (hyperparameters (new_detector hp_is))"
    by (simp add: new_detector_def hp_is_def default_hyper_def)
  from find_keywords_bounded_sorted [OF h k] k run_new_york show ?thesis
    by simp
qed

text \<open>
  Claim C4. No keyword of the returned list has its lowercased form among the
  stopwords, and every one is at least three characters long.
\<close>

theorem find_keywords_filtered:
  assumes "find_keywords E st doc input_type = Inr (out, st')"
    and "(kw, score) \<in> set out"
  shows "lower E kw \<notin> stopwords (hyperparameters st) \<and> 3 \<le> length kw"
proof -
  from assms(1) obtain st5 where
    h: "hyperparameters st5 = hyperparameters st" and
    out: "out = py_prefix (num_keywords (hyperparameters st)) (final_keywords (combine_keywords E st5))"
    by (rule find_keywords_InrD)
  have "set out \<subseteq> set (final_keywords (combine_keywords E st5))"
    unfolding out by (rule set_py_prefix)
  with assms(2) have "(kw, score) \<in> set (final_keywords (combine_keywords E st5))"
    by (rule rev_subsetD)
  then have "(kw, score) \<in> set (combine_loop E (hyperparameters st5) (node_ranks st5) [] {})"
    by (simp add: combine_keywords_def Let_def)
  from combine_loop_set [OF this] show ?thesis
    by (simp add: h)
qed

theorem find_keywords_filtered_witness:
  "map_sum id fst
     (find_keywords ascii (new_detector hp_is) (PyStr (ustr ''new york is big'')) (ustr ''string''))
   = Inr [(ustr ''new york'', 8), (ustr ''big'', 3)]
   \<and> (ustr ''big'', 3) \<in> set [(ustr ''new york'', 8 :: rat), (ustr ''big'', 3)]
   \<and> lower ascii (ustr ''big'') \<notin> stopwords (hyperparameters (new_detector hp_is))
   \<and> 3 \<le> length (ustr ''big'')"
proof -
  let ?r = "find_keywords ascii (new_detector hp_is) (PyStr (ustr ''new york is big'')) (ustr ''string'')"
  obtain st' where h: "?r = Inr ([(ustr ''new york'', 8), (ustr ''big'', 3)], st')"
    using run_new_york by (cases ?r) auto
  have m: "(ustr ''big'', 3) \<in> set [(ustr ''new york'', 8 :: rat), (ustr ''big'', 3)]"
    by simp
  from find_keywords_filtered [OF h m] m run_new_york show ?thesis
    by simp
qed

section \<open>The graph\<close>

lemma no_selfloop_graph_of_tokens: "\<not> has_edge (graph_of_tokens E weight ts) u u"
  by (simp add: has_edge_def graph_of_tokens_def remove_selfloops_def map_of_eq_None_iff image_iff)

lemma G_get_document_graph:
  "get_document_graph E st weight = Inr st' \<Longrightarrow> G st' = graph_of_tokens E weight (tokens st)"
  by (auto simp: get_document_graph_def Let_def ebind_eq_Inr)

lemma G_combine_keywords [simp]: "G (combine_keywords E st) = G st"
  by (simp add: combine_keywords_def Let_def)

lemma find_keywords_no_selfloops:
  assumes "find_keywords E st doc input_type = Inr (out, st')"
  shows "\<not> has_edge (G st') u u"
proof -
  from assms obtain st4 st5 where
    g: "get_document_graph E st4 1 = Inr st5" and s: "st' = combine_keywords E st5"
    by (rule find_keywords_InrD)
  show ?thesis
    using G_get_document_graph [OF g] no_selfloop_graph_of_tokens s by simp
qed

text \<open>
  Claim C9. The graph that \<open>get_document_graph\<close> leaves in \<open>self.G\<close>, which is the
  graph it hands to the ranking, is the token graph with the self-loops removed: it
  has no edge from a node to itself.
\<close>

theorem graph_without_selfloops:
  assumes "get_document_graph E st weight = Inr st'"
  shows "G st' = graph_of_tokens E weight (tokens st)
         \<and> \<not> has_edge (G st') u u
         \<and> (u, u) \<notin> fst ` set (g_edges (G st'))"
proof -
  have g: "G st' = graph_of_tokens E weight (tokens st)"
    using assms by (rule G_get_document_graph)
  have h: "\<not> has_edge (G st') u u"
    unfolding g by (rule no_selfloop_graph_of_tokens)
  then have "(u, u) \<notin> fst ` set (g_edges (G st'))"
    by (simp add: has_edge_def map_of_eq_None_iff)
  with g h show ?thesis by simp
qed

theorem graph_without_selfloops_witness:
  "map_sum id G
     (get_document_graph ascii
        ((new_detector hp_is)\<lparr>tokens := [ustr ''is'', ustr ''is'', ustr ''big''],
                               term_counts := [(ustr ''is'', 2), (ustr ''big'', 1)]\<rparr>) 1)
   = Inr \<lparr>g_nodes = [ustr ''is'', ustr ''big''], g_edges = [((ustr ''is'', ustr ''big''), 1)]\<rparr>
   \<and> \<lparr>g_nodes = [ustr ''is'', ustr ''big''], g_edges = [((ustr ''is'', ustr ''big''), 1)]\<rparr>
      = graph_of_tokens ascii 1 [ustr ''is'', ustr ''is'', ustr ''big'']
   \<and> \<not> has_edge \<lparr>g_nodes = [ustr ''is'', ustr ''big''], g_edges = [((ustr ''is'', ustr ''big''), 1)]\<rparr>
          (ustr ''is'') (ustr ''is'')
   \<and> (ustr ''is'', ustr ''is'')
      \<notin> fst ` set (g_edges \<lparr>g_nodes = [ustr ''is'', ustr ''big''],
                               g_edges = [((ustr ''is'', ustr ''big''), 1 :: int)]\<rparr>)"
proof -
  let ?st = "(new_detector hp_is)\<lparr>tokens := [ustr ''is'', ustr ''is'', ustr ''big''],
                                   term_counts := [(ustr ''is'', 2), (ustr ''big'', 1)]\<rparr>"
  let ?g = "\<lparr>g_nodes = [ustr ''is'', ustr ''big''], g_edges = [((ustr ''is'', ustr ''big''), 1 :: int)]\<rparr>"
  have r: "map_sum id G (get_document_graph ascii ?st 1) = Inr ?g"
    by (simp add: eval_defs)
  then obtain st' where h: "get_document_graph ascii ?st 1 = Inr st'" and g: "G st' = ?g"
    by (cases "get_document_graph ascii ?st 1") auto
  have t: "tokens ?st = [ustr ''is'', ustr ''is'', ustr ''big'']"
    by (simp add: new_detector_def)
  note c = graph_without_selfloops [OF h, of "ustr ''is''", unfolded g t]
  from r c show ?thesis
    by blast
qed

section \<open>Input forms and blank documents\<close>

lemma split_on_no_sep: "sep \<notin> set xs \<Longrightarrow> split_on sep cur xs = [cur @ xs]"
  by (induction xs arbitrary: cur) auto

lemma split_on_append:
  "sep \<notin> set xs \<Longrightarrow> split_on sep cur (xs @ sep # ys) = (cur @ xs) # split_on sep [] ys"
  by (induction xs arbitrary: cur) auto

lemma split_two_lines:
  "NEWLINE \<notin> set line1 \<Longrightarrow> NEWLINE \<notin> set line2 \<Longrightarrow>
     split_on NEWLINE [] (line1 @ [NEWLINE] @ line2) = [line1, line2]"
  by (simp add: split_on_append split_on_no_sep)

lemma string_not_file: "ustr ''string'' \<noteq> ustr ''file''"
  by (simp add: ustr_def)

text \<open>
  Claim C7. With input type \<open>string\<close>, a string of two lines joined by a newline and
  the list of the two lines give the same result: the same returned list and the
  same detector state.
\<close>

theorem string_and_lines_agree:
  assumes "NEWLINE \<notin> set line1" and "NEWLINE \<notin> set line2"
  shows "find_keywords E st (PyStr (line1 @ [NEWLINE] @ line2)) (ustr ''string'')
         = find_keywords E st (PyList [line1, line2]) (ustr ''string'')"
proof -
  have "parse_input E (PyStr (line1 @ [NEWLINE] @ line2)) (ustr ''string'')
        = parse_input E (PyList [line1, line2]) (ustr ''string'')"
    using split_two_lines [OF assms] by (simp add: parse_input_def string_not_file)
  then show ?thesis
    by (simp add: find_keywords_def)
qed

theorem string_and_lines_agree_witness:
  "NEWLINE \<notin> set (ustr ''new york'') \<and> NEWLINE \<notin> set (ustr ''is big'')
   \<and> find_keywords ascii (new_detector hp_is)
        (PyStr (ustr ''new york'' @ [NEWLINE] @ ustr ''is big'')) (ustr ''string'')
      = find_keywords ascii (new_detector hp_is)
          (PyList [ustr ''new york'', ustr ''is big'']) (ustr ''string'')"
proof -
  have a: "NEWLINE \<notin> set (ustr ''new york'')" and b: "NEWLINE \<notin> set (ustr ''is big'')"
    by (simp_all add: ustr_def)
  from string_and_lines_agree [OF a b] a b show ?thesis
    by simp
qed

lemma join_split_on:
  "set (join [SPACE] (split_on NEWLINE cur xs)) \<subseteq> insert SPACE (set cur \<union> (set xs - {NEWLINE}))"
proof (induction xs arbitrary: cur)
  case Nil
  show ?case by auto
next
  case (Cons c cs)
  show ?case
  proof (cases "c = NEWLINE")
    case True
    have "set (join [SPACE] (cur # split_on NEWLINE [] cs))
          \<subseteq> set cur \<union> insert SPACE (set (join [SPACE] (split_on NEWLINE [] cs)))"
      by (cases "split_on NEWLINE [] cs") auto
    with Cons.IH [of "[]"] True show ?thesis by auto
  next
    case False
    with Cons.IH [of "cur @ [c]"] show ?thesis by auto
  qed
qed


lemma word_runs_no_word:
  "\<forall>c \<in> set s. \<not> w c \<Longrightarrow> word_runs w cur s = (if cur = [] then [] else [cur])"
  by (induction s arbitrary: cur) auto

lemma findall_no_word: "\<forall>c \<in> set s. \<not> isword E c \<Longrightarrow> findall E s = []"
  by (simp add: findall_def word_runs_no_word)

lemma strip_blank: "\<forall>c \<in> set s. isspace E c \<Longrightarrow> strip E s = []"
  by (auto simp: strip_def dest: set_dropWhileD)

lemma tokenize_blank:
  assumes "whitespace_sane E" and "\<forall>c \<in> set (document st). isspace E c"
  shows "tokens (tokenize E st) = []"
proof -
  have "\<forall>c \<in> set (document st). \<not> isword E c"
    using assms by (auto simp: whitespace_sane_def)
  then have "findall E (document st) = []"
    by (rule findall_no_word)
  then show ?thesis
    using strip_blank [OF assms(2)] by (simp add: tokenize_def space_factor_def)
qed

lemma counter_Nil [simp]: "counter [] = []"
  by (simp add: counter_def)

lemma tf_merge_empty:
  assumes "tokens st = []"
  shows "\<exists>st4. merge_tokens (compute_tf_scores E st None) = Inr st4 \<and> tokens st4 = []
               \<and> hyperparameters st4 = hyperparameters st"
  using assms by (simp add: merge_tokens_def compute_tf_scores_def Let_def two_grams_def)

lemma graph_of_no_tokens [simp]: "graph_of_tokens E weight [] = empty_graph"
  by (simp add: graph_of_tokens_def remove_selfloops_def empty_graph_def)

lemma scale_by_length_Nil [simp]: "scale_by_length [] = []"
  by (simp add: scale_by_length_def dict_of_def)

lemma get_document_graph_empty:
  assumes "tokens st = []"
    and "0 \<le> num_keywords (hyperparameters st)
         \<or> pagerank E empty_graph (alpha (hyperparameters st)) (max_iter (hyperparameters st)) [] = Some []"
  shows "\<exists>st5. get_document_graph E st weight = Inr st5 \<and> tokens st5 = [] \<and> G st5 = empty_graph
               \<and> node_ranks st5 = [] \<and> hyperparameters st5 = hyperparameters st"
  using assms by (auto simp: get_document_graph_def Let_def empty_graph_def)

lemma combine_keywords_empty:
  "node_ranks st = [] \<Longrightarrow> final_keywords (combine_keywords E st) = []"
  by (simp add: combine_keywords_def sorted_desc_def)

lemma tokens_combine_keywords [simp]: "tokens (combine_keywords E st) = tokens st"
  by (simp add: combine_keywords_def Let_def)

lemma py_prefix_Nil [simp]: "py_prefix k [] = []"
  by (simp add: py_prefix_def)

text \<open>
  Claim C8. A document of whitespace only (the empty one among them), given as a
  string, raises nothing: the call returns the empty list, with no token and the
  empty graph. The ranking is not reached unless \<open>num_keywords\<close> is negative; then
  the statement needs \<open>pagerank\<close> to return the empty mapping on the empty graph.
\<close>

theorem blank_document_gives_nothing:
  assumes "whitespace_sane E"
    and "list_all (isspace E) d"
    and "0 \<le> num_keywords (hyperparameters st)
         \<or> pagerank E empty_graph (alpha (hyperparameters st)) (max_iter (hyperparameters st)) [] = Some []"
  shows "\<exists>st'. find_keywords E st (PyStr d) (ustr ''string'') = Inr ([], st')
               \<and> tokens st' = [] \<and> G st' = empty_graph"
proof -
  let ?doc = "join [SPACE] (split_on NEWLINE [] d)"
  let ?st2 = "tokenize E (st\<lparr>document := ?doc\<rparr>)"
  have p: "parse_input E (PyStr d) (ustr ''string'') = Inr (split_on NEWLINE [] d)"
    by (simp add: parse_input_def string_not_file)
  have "set ?doc \<subseteq> insert SPACE (set [] \<union> (set d - {NEWLINE}))"
    by (rule join_split_on)
  with assms(1,2) have "\<forall>c \<in> set (document (st\<lparr>document := ?doc\<rparr>)). isspace E c"
    by (auto simp: whitespace_sane_def list_all_iff)
  with assms(1) have t2: "tokens ?st2 = []"
    by (rule tokenize_blank)
  from tf_merge_empty [OF t2] obtain st4 where
    m: "merge_tokens (compute_tf_scores E ?st2 None) = Inr st4" and t4: "tokens st4 = []"
    and h4: "hyperparameters st4 = hyperparameters st"
    by auto
  from assms(3) h4 have "0 \<le> num_keywords (hyperparameters st4)
      \<or> pagerank E empty_graph (alpha (hyperparameters st4)) (max_iter (hyperparameters st4)) [] = Some []"
    by simp
  from get_document_graph_empty [OF t4 this] obtain st5 where
    g: "get_document_graph E st4 1 = Inr st5" and t5: "tokens st5 = []" and g5: "G st5 = empty_graph"
    and n5: "node_ranks st5 = []"
    by blast
  have "find_keywords E st (PyStr d) (ustr ''string'') = Inr ([], combine_keywords E st5)"
    by (simp add: find_keywords_def p m g combine_keywords_empty [OF n5])
  with t5 g5 show ?thesis by simp
qed

theorem blank_document_gives_nothing_witness:
  "whitespace_sane ascii
   \<and> list_all (isspace ascii) [SPACE, TAB, NEWLINE, SPACE]
   \<and> 0 \<le> num_keywords (hyperparameters (new_detector hp_is))
   \<and> map_sum id fst
        (find_keywords ascii (new_detector hp_is) (PyStr [SPACE, TAB, NEWLINE, SPACE]) (ustr ''string''))
      = Inr []"
proof -
  have a: "whitespace_sane ascii"
    by (auto simp: whitespace_sane_def ascii_def)
  have b: "list_all (isspace ascii) [SPACE, TAB, NEWLINE, SPACE]"
    by (simp add: ascii_def)
  have c: "0 \<le> num_keywords (hyperparameters (new_detector hp_is))"
    by (simp add: new_detector_def hp_is_def default_hyper_def)
  from blank_document_gives_nothing [OF a b disjI1, OF c] a b c show ?thesis
    by auto
qed

section \<open>The two modes of the tokenizer\<close>

lemma space_factor_alt:
  "space_factor E doc =
     (if findall E doc = [] then 0
      else rat_of_nat (count_list doc SPACE) / rat_of_nat (length (findall E doc)))"
  by (simp add: space_factor_def)

lemma char_mode_filter:
  "[x \<leftarrow> [x \<leftarrow> map (\<lambda>c. [c]) cs. \<not> x = [SPACE] \<and> \<not> x = [NEWLINE] \<and> \<not> x = [FWCOMMA]].
      \<not> str_isdigit E x \<and> SPACE \<notin> set x]
   = map (\<lambda>c. [c]) [c \<leftarrow> cs. c \<noteq> SPACE \<and> c \<noteq> NEWLINE \<and> c \<noteq> FWCOMMA \<and> \<not> isdigit E c]"
  by (induction cs) (auto simp: str_isdigit_def)

text \<open>
  Claim C5, amended. \<open>space_factor\<close> is the number of spaces divided by the number
  of word matches, and 0 when there is no match. From 0.5 on, the tokens are the
  word matches that are not digit-only. Below 0.5 there is one token for each
  character of the stripped document except the space, the newline, the full-width
  comma and the digits; whitespace other than the space and the newline is removed
  at both ends of the document only. The empty document has \<open>space_factor\<close> 0 and
  no token.
\<close>

theorem tokenize_modes:
  "tokens (tokenize E st) =
     (if 1 / 2 \<le> space_factor E (document st)
      then [t \<leftarrow> findall E (document st). \<not> str_isdigit E t]
      else map (\<lambda>c. [c]) [c \<leftarrow> strip E (document st).
                              c \<noteq> SPACE \<and> c \<noteq> NEWLINE \<and> c \<noteq> FWCOMMA \<and> \<not> isdigit E c])
   \<and> space_factor E (document st) =
       (if findall E (document st) = [] then 0
        else rat_of_nat (count_list (document st) SPACE)
             / rat_of_nat (length (findall E (document st))))
   \<and> space_factor E [] = 0
   \<and> tokens (tokenize E (st\<lparr>document := []\<rparr>)) = []"
proof -
  have a: "tokens (tokenize E st) =
     (if 1 / 2 \<le> space_factor E (document st)
      then [t \<leftarrow> findall E (document st). \<not> str_isdigit E t]
      else map (\<lambda>c. [c]) [c \<leftarrow> strip E (document st).
                              c \<noteq> SPACE \<and> c \<noteq> NEWLINE \<and> c \<noteq> FWCOMMA \<and> \<not> isdigit E c])"
    by (simp add: tokenize_def Let_def char_mode_filter not_less [symmetric] del: filter_filter)
  have b: "space_factor E [] = 0"
    by (simp add: space_factor_def findall_def)
  have c: "tokens (tokenize E (st\<lparr>document := []\<rparr>)) = []"
    by (simp add: tokenize_def b strip_def)
  show ?thesis
    using a b c space_factor_alt by simp
qed

text \<open>
  The claim as stated fails on \<open>a<TAB>b\<close>: character mode keeps the tab between the
  letters as a token.
\<close>

theorem tokenize_keeps_tab:
  "tokens (tokenize ascii ((new_detector hp_is)\<lparr>document := [97, TAB, 98]\<rparr>)) = [[97], [TAB], [98]]
   \<and> isspace ascii TAB
   \<and> space_factor ascii [97, TAB, 98] < 1 / 2"
  by (simp add: eval_defs)


section \<open>Ranking\<close>

lemma update_fresh: "k \<notin> fst ` set d \<Longrightarrow> AList.update k v d = d @ [(k, v)]"
  by (induction d) auto

lemma foldl_update_distinct:
  "distinct (map fst (d @ ps)) \<Longrightarrow> foldl (\<lambda>d (k, v). AList.update k v d) d ps = d @ ps"
proof (induction ps arbitrary: d)
  case Nil
  show ?case by simp
next
  case (Cons p ps)
  obtain k v where p: "p = (k, v)" by (cases p)
  from Cons.prems have f: "k \<notin> fst ` set d" by (auto simp: p)
  from Cons.prems have "distinct (map fst ((d @ [(k, v)]) @ ps))" by (simp add: p)
  from Cons.IH [OF this] show ?case by (simp add: p update_fresh [OF f])
qed

lemma dict_of_distinct: "distinct (map fst ps) \<Longrightarrow> dict_of ps = ps"
  using foldl_update_distinct [of "[]" ps] by (simp add: dict_of_def)

lemma scale_by_length_alt:
  "scale_by_length nr = dict_of (map (\<lambda>(k, v). (k, v * rat_of_nat (length k))) nr)"
proof -
  have "zip (map fst nr)
          (map (\<lambda>(r, l). r * l) (zip (map snd nr) (map (\<lambda>(x, y). rat_of_nat (length x)) nr)))
        = map (\<lambda>(k, v). (k, v * rat_of_nat (length k))) nr"
    by (induction nr) auto
  then show ?thesis by (simp add: scale_by_length_def)
qed

lemma distinct_add_node: "distinct ns \<Longrightarrow> distinct (add_node u ns)"
  by (simp add: add_node_def)

lemma distinct_build_graph:
  "distinct (g_nodes g) \<Longrightarrow> distinct (g_nodes (build_graph E weight ts g))"
  by (induction E weight ts g rule: build_graph.induct)
     (simp_all add: Let_def add_edge_def distinct_add_node)

lemma distinct_graph_of_tokens: "distinct (g_nodes (graph_of_tokens E weight ts))"
  by (simp add: graph_of_tokens_def remove_selfloops_def distinct_build_graph empty_graph_def)

lemma scale_uniform:
  "scale_by_length (map (\<lambda>k. (k, 1)) (g_nodes (graph_of_tokens E weight ts)))
   = map (\<lambda>k. (k, 1 * rat_of_nat (length k))) (g_nodes (graph_of_tokens E weight ts))"
proof -
  have "distinct (map fst (map (\<lambda>k. (k, 1 * rat_of_nat (length k)))
                             (g_nodes (graph_of_tokens E weight ts))))"
    by (simp add: comp_def distinct_graph_of_tokens)
  from dict_of_distinct [OF this] show ?thesis
    by (simp add: scale_by_length_alt comp_def)
qed

text \<open>What \<open>get_document_graph\<close> does, by the size of the graph.\<close>

lemma get_document_graph_InrD:
  assumes "get_document_graph E st weight = Inr st'"
  obtains pers base where
    "personalization_of (term_counts st) (tokens st) [] = Inr pers"
    "st' = st\<lparr>G := graph_of_tokens E weight (tokens st), node_ranks := scale_by_length base\<rparr>"
    "if int (length (g_nodes (graph_of_tokens E weight (tokens st)))) \<le> num_keywords (hyperparameters st)
     then base = map (\<lambda>k. (k, 1)) (g_nodes (graph_of_tokens E weight (tokens st)))
     else pagerank E (graph_of_tokens E weight (tokens st)) (alpha (hyperparameters st))
            (max_iter (hyperparameters st)) pers = Some base"
proof -
  let ?g = "graph_of_tokens E weight (tokens st)"
  let ?hp = "hyperparameters st"
  from assms obtain pers base where
    p: "personalization_of (term_counts st) (tokens st) [] = Inr pers" and
    b: "(if int (length (g_nodes ?g)) > num_keywords ?hp
         then (case pagerank E ?g (alpha ?hp) (max_iter ?hp) pers of
                 None \<Rightarrow> Inl PageRankError | Some r \<Rightarrow> Inr r)
         else Inr (map (\<lambda>k. (k, 1)) (g_nodes ?g))) = Inr base" and
    s: "st' = st\<lparr>G := ?g, node_ranks := scale_by_length base\<rparr>"
    unfolding get_document_graph_def Let_def ebind_eq_Inr by blast
  have "if int (length (g_nodes ?g)) \<le> num_keywords ?hp
        then base = map (\<lambda>k. (k, 1)) (g_nodes ?g)
        else pagerank E ?g (alpha ?hp) (max_iter ?hp) pers = Some base"
    using b by (auto split: if_splits option.splits)
  with p s show thesis by (rule that)
qed


text \<open>The stages other than the ranking do not look at \<open>pagerank\<close>.\<close>

lemma findall_pagerank [simp]: "findall (E\<lparr>pagerank := pr\<rparr>) s = findall E s"
  by (simp add: findall_def)

lemma strip_pagerank [simp]: "strip (E\<lparr>pagerank := pr\<rparr>) s = strip E s"
  by (simp add: strip_def)

lemma str_isdigit_pagerank [simp]: "str_isdigit (E\<lparr>pagerank := pr\<rparr>) s = str_isdigit E s"
  by (simp add: str_isdigit_def)

lemma space_factor_pagerank [simp]: "space_factor (E\<lparr>pagerank := pr\<rparr>) s = space_factor E s"
  by (simp add: space_factor_def)

lemma tokenize_pagerank [simp]: "tokenize (E\<lparr>pagerank := pr\<rparr>) st = tokenize E st"
  by (simp add: tokenize_def Let_def cong: if_cong)

lemma compute_tf_scores_pagerank [simp]:
  "compute_tf_scores (E\<lparr>pagerank := pr\<rparr>) st d = compute_tf_scores E st d"
  by (cases d) (simp_all add: compute_tf_scores_def)

lemma build_graph_pagerank [simp]:
  "build_graph (E\<lparr>pagerank := pr\<rparr>) weight ts g = build_graph E weight ts g"
  by (induction E weight ts g rule: build_graph.induct) simp_all

lemma graph_of_tokens_pagerank [simp]:
  "graph_of_tokens (E\<lparr>pagerank := pr\<rparr>) weight ts = graph_of_tokens E weight ts"
  by (simp add: graph_of_tokens_def)

lemma parse_input_pagerank [simp]:
  "parse_input (E\<lparr>pagerank := pr\<rparr>) doc input_type = parse_input E doc input_type"
  by (cases doc) (simp_all add: parse_input_def)

lemma combine_loop_pagerank [simp]:
  "combine_loop (E\<lparr>pagerank := pr\<rparr>) hp nr combined appeared = combine_loop E hp nr combined appeared"
  by (induction E hp nr combined appeared rule: combine_loop.induct) simp_all

lemma combine_keywords_pagerank [simp]:
  "combine_keywords (E\<lparr>pagerank := pr\<rparr>) st = combine_keywords E st"
  by (simp add: combine_keywords_def)

lemma get_document_graph_small:
  assumes "int (length (g_nodes (graph_of_tokens E weight (tokens st)))) \<le> num_keywords (hyperparameters st)"
  shows "get_document_graph (E\<lparr>pagerank := pr\<rparr>) st weight = get_document_graph E st weight"
  using assms by (simp add: get_document_graph_def Let_def)

lemma node_ranks_combine_keywords [simp]: "node_ranks (combine_keywords E st) = node_ranks st"
  by (simp add: combine_keywords_def Let_def)

lemma term_counts_combine_keywords [simp]: "term_counts (combine_keywords E st) = term_counts st"
  by (simp add: combine_keywords_def Let_def)

lemma out_subset_node_ranks:
  assumes "out = py_prefix k (final_keywords (combine_keywords E st5))"
  shows "set out \<subseteq> set (node_ranks st5)"
proof
  fix p assume "p \<in> set out"
  then have "p \<in> set (final_keywords (combine_keywords E st5))"
    unfolding assms using set_py_prefix by (rule rev_subsetD)
  then have "p \<in> set (combine_loop E (hyperparameters st5) (node_ranks st5) [] {})"
    by (simp add: combine_keywords_def Let_def)
  from combine_loop_set [OF this] show "p \<in> set (node_ranks st5)" by simp
qed

lemma out_sorted:
  assumes "out = py_prefix k (final_keywords (combine_keywords E st5))"
  shows "sorted_wrt (\<lambda>a b. snd b \<le> snd a) out"
proof -
  have "sorted_wrt (\<lambda>a b. snd b \<le> snd a) (final_keywords (combine_keywords E st5))"
    by (simp add: combine_keywords_def Let_def sorted_desc_sorted)
  then show ?thesis
    unfolding assms by (rule sorted_wrt_py_prefix)
qed

text \<open>
  Claim C6. With at most \<open>num_keywords\<close> nodes every node has base rank 1 and
  the result does not depend on \<open>pagerank\<close>; with more nodes the base ranks are what
  \<open>pagerank\<close> returns for the graph, the configured \<open>alpha\<close> and \<open>max_iter\<close> and the
  personalization. In both cases the score of a node is its base rank times the
  length of the token. On a small graph the score of a keyword is therefore its
  length, and the returned list is ordered by length, longest first.
\<close>

theorem ranks_scaled_by_length:
  assumes "find_keywords E st doc input_type = Inr (out, st')"
  shows "(\<exists>pers base.
            personalization_of (term_counts st') (tokens st') [] = Inr pers
            \<and> (if int (length (g_nodes (G st'))) \<le> num_keywords (hyperparameters st)
               then base = map (\<lambda>k. (k, 1)) (g_nodes (G st'))
               else pagerank E (G st') (alpha (hyperparameters st)) (max_iter (hyperparameters st)) pers
                    = Some base)
            \<and> node_ranks st' = dict_of (map (\<lambda>(k, v). (k, v * rat_of_nat (length k))) base))
         \<and> (int (length (g_nodes (G st'))) \<le> num_keywords (hyperparameters st) \<longrightarrow>
              node_ranks st' = map (\<lambda>k. (k, rat_of_nat (length k))) (g_nodes (G st'))
              \<and> list_all (\<lambda>(kw, score). score = rat_of_nat (length kw)) out
              \<and> sorted_wrt (\<lambda>a b. length (fst b) \<le> length (fst a)) out
              \<and> (\<forall>pr. find_keywords (E\<lparr>pagerank := pr\<rparr>) st doc input_type = Inr (out, st')))"
proof -
  let ?hp = "hyperparameters st"
  from assms obtain lines st4 st5 where
    p: "parse_input E doc input_type = Inr lines" and
    m: "merge_tokens (compute_tf_scores E (tokenize E (st\<lparr>document := join [SPACE] lines\<rparr>)) None) = Inr st4" and
    g: "get_document_graph E st4 1 = Inr st5" and
    h5: "hyperparameters st5 = ?hp" and
    s: "st' = combine_keywords E st5" and
    out: "out = py_prefix (num_keywords ?hp) (final_keywords (combine_keywords E st5))"
    by (rule find_keywords_InrD)
  have h4: "hyperparameters st4 = ?hp"
    using hyperparameters_get_document_graph [OF g] h5 by simp
  from g obtain pers base where
    pe: "personalization_of (term_counts st4) (tokens st4) [] = Inr pers" and
    s5: "st5 = st4\<lparr>G := graph_of_tokens E 1 (tokens st4), node_ranks := scale_by_length base\<rparr>" and
    b: "if int (length (g_nodes (graph_of_tokens E 1 (tokens st4)))) \<le> num_keywords (hyperparameters st4)
        then base = map (\<lambda>k. (k, 1)) (g_nodes (graph_of_tokens E 1 (tokens st4)))
        else pagerank E (graph_of_tokens E 1 (tokens st4)) (alpha (hyperparameters st4))
               (max_iter (hyperparameters st4)) pers = Some base"
    by (rule get_document_graph_InrD)
  have G': "G st' = graph_of_tokens E 1 (tokens st4)" and
       t': "tokens st' = tokens st4" and c': "term_counts st' = term_counts st4" and
       n': "node_ranks st' = scale_by_length base" and n5: "node_ranks st5 = scale_by_length base"
    by (simp_all add: s s5)
  have first: "\<exists>pers base.
            personalization_of (term_counts st') (tokens st') [] = Inr pers
            \<and> (if int (length (g_nodes (G st'))) \<le> num_keywords ?hp
               then base = map (\<lambda>k. (k, 1)) (g_nodes (G st'))
               else pagerank E (G st') (alpha ?hp) (max_iter ?hp) pers = Some base)
            \<and> node_ranks st' = dict_of (map (\<lambda>(k, v). (k, v * rat_of_nat (length k))) base)"
    using pe b unfolding G' t' c' n' h4 scale_by_length_alt by blast
  have second: "node_ranks st' = map (\<lambda>k. (k, rat_of_nat (length k))) (g_nodes (G st'))
              \<and> list_all (\<lambda>(kw, score). score = rat_of_nat (length kw)) out
              \<and> sorted_wrt (\<lambda>a b. length (fst b) \<le> length (fst a)) out
              \<and> (\<forall>pr. find_keywords (E\<lparr>pagerank := pr\<rparr>) st doc input_type = Inr (out, st'))"
    if small: "int (length (g_nodes (G st'))) \<le> num_keywords ?hp"
  proof -
    from small b have "base = map (\<lambda>k. (k, 1)) (g_nodes (graph_of_tokens E 1 (tokens st4)))"
      by (simp add: G' h4)
    then have nr: "node_ranks st' = map (\<lambda>k. (k, rat_of_nat (length k))) (g_nodes (G st'))"
      using scale_uniform [of E 1 "tokens st4"] by (simp add: n' G')
    have sub: "set out \<subseteq> set (node_ranks st5)"
      using out by (rule out_subset_node_ranks)
    have len: "snd q = rat_of_nat (length (fst q))" if "q \<in> set out" for q
      using that sub nr n' n5 by auto
    then have la: "list_all (\<lambda>(kw, score). score = rat_of_nat (length kw)) out"
      by (auto simp: list_all_iff)
    have "sorted_wrt (\<lambda>a b. snd b \<le> snd a) out"
      using out by (rule out_sorted)
    then have so: "sorted_wrt (\<lambda>a b. length (fst b) \<le> length (fst a)) out"
      by (rule sorted_wrt_mono_rel [rotated]) (simp add: len)
    have "get_document_graph (E\<lparr>pagerank := pr\<rparr>) st4 1 = Inr st5" for pr
      using get_document_graph_small [of E 1 st4 pr] small g by (simp add: G' h4)
    then have "find_keywords (E\<lparr>pagerank := pr\<rparr>) st doc input_type = Inr (out, st')" for pr
      by (simp add: find_keywords_def Let_def p m s out h5)
    with nr la so show ?thesis by simp
  qed
  from first second show ?thesis by blast
qed

theorem ranks_scaled_by_length_witness:
  "map_sum id (\<lambda>p. (fst p, g_nodes (G (snd p)), node_ranks (snd p)))
     (find_keywords ascii (new_detector hp_is) (PyStr (ustr ''new york is big'')) (ustr ''string''))
   = Inr ([(ustr ''new york'', 8), (ustr ''big'', 3)],
          [ustr ''new york'', ustr ''is'', ustr ''big''],
          [(ustr ''new york'', 8), (ustr ''is'', 2), (ustr ''big'', 3)])
   \<and> int (length [ustr ''new york'', ustr ''is'', ustr ''big''])
      \<le> num_keywords (hyperparameters (new_detector hp_is))
   \<and> [(ustr ''new york'', 8), (ustr ''is'', 2), (ustr ''big'', 3)]
      = map (\<lambda>k. (k, rat_of_nat (length k))) [ustr ''new york'', ustr ''is'', ustr ''big'']
   \<and> list_all (\<lambda>(kw, score). score = rat_of_nat (length kw))
        [(ustr ''new york'', 8), (ustr ''big'', 3)]
   \<and> sorted_wrt (\<lambda>a b. length (fst b) \<le> length (fst a))
        [(ustr ''new york'', 8 :: rat), (ustr ''big'', 3)]"
proof -
  let ?r = "find_keywords ascii (new_detector hp_is) (PyStr (ustr ''new york is big'')) (ustr ''string'')"
  let ?out = "[(ustr ''new york'', 8 :: rat), (ustr ''big'', 3)]"
  let ?nodes = "[ustr ''new york'', ustr ''is'', ustr ''big'']"
  let ?ranks = "[(ustr ''new york'', 8 :: rat), (ustr ''is'', 2), (ustr ''big'', 3)]"
  have r: "map_sum id (\<lambda>p. (fst p, g_nodes (G (snd p)), node_ranks (snd p))) ?r
           = Inr (?out, ?nodes, ?ranks)"
    by (simp add: eval_defs)
  then obtain st' where h: "?r = Inr (?out, st')" and gn: "g_nodes (G st') = ?nodes"
    and nr: "node_ranks st' = ?ranks"
    by (cases ?r) auto
  have small: "int (length (g_nodes (G st'))) \<le> num_keywords (hyperparameters (new_detector hp_is))"
    by (simp add: gn new_detector_def hp_is_def default_hyper_def)
  from ranks_scaled_by_length [OF h] small have
    "node_ranks st' = map (\<lambda>k. (k, rat_of_nat (length k))) (g_nodes (G st'))
     \<and> list_all (\<lambda>(kw, score). score = rat_of_nat (length kw)) ?out
     \<and> sorted_wrt (\<lambda>a b. length (fst b) \<le> length (fst a)) ?out"
    by blast
  with r small show ?thesis
    unfolding gn nr by blast
qed

section \<open>The token merger\<close>

subsection \<open>Counters\<close>

lemma map_of_counter_add:
  "map_of (counter_add x d) k =
     (if k = x then Some ((case map_of d x of None \<Rightarrow> 0 | Some c \<Rightarrow> c) + 1) else map_of d k)"
  by (simp add: counter_add_def update_conv')

lemma map_of_foldl_counter_add:
  "map_of (foldl (\<lambda>d k. counter_add k d) d xs) k =
     (if k \<in> set xs
      then Some ((case map_of d k of None \<Rightarrow> 0 | Some c \<Rightarrow> c) + rat_of_nat (count_list xs k))
      else map_of d k)"
proof (induction xs arbitrary: d)
  case Nil
  show ?case by simp
next
  case (Cons x xs)
  show ?case
    by (simp add: Cons.IH map_of_counter_add split: option.splits)
qed

lemma map_of_counter:
  "map_of (counter xs) k = (if k \<in> set xs then Some (rat_of_nat (count_list xs k)) else None)"
  by (simp add: counter_def map_of_foldl_counter_add)

lemma count_list_pos: "k \<in> set xs \<Longrightarrow> 0 < count_list xs k"
  by (induction xs) auto

lemma two_grams_nth: "Suc n < length ts \<Longrightarrow> (ts ! n, ts ! Suc n) \<in> set (two_grams ts)"
proof -
  assume a: "Suc n < length ts"
  then have "n < length (zip ts (tl ts))" by simp
  then have "zip ts (tl ts) ! n \<in> set (zip ts (tl ts))" by (rule nth_mem)
  moreover have "zip ts (tl ts) ! n = (ts ! n, ts ! Suc n)"
    using a by (simp add: nth_tl)
  ultimately show ?thesis by (simp add: two_grams_def)
qed

subsection \<open>One step\<close>

lemma compound_neq: "t1 @ [SPACE] @ t2 \<noteq> t1" "t1 @ [SPACE] @ t2 \<noteq> t2"
proof -
  show "t1 @ [SPACE] @ t2 \<noteq> t1" by simp
  have "length (t1 @ [SPACE] @ t2) \<noteq> length t2" by simp
  then show "t1 @ [SPACE] @ t2 \<noteq> t2" by metis
qed

lemma dict_get_Some: "map_of d k = Some v \<Longrightarrow> dict_get d k = Inr v"
  by (simp add: dict_get_def)

lemma merge_step_spec:
  assumes "map_of tc t1 = Some c1" and "map_of tc t2 = Some c2"
    and "map_of bc (t1, t2) = Some bgc" and "c1 + c2 \<noteq> 0"
  shows "merge_step hp bc t1 t2 (tmp, merged, tc) =
     Inr (if t1 \<notin> stopwords hp \<and> t2 \<notin> stopwords hp
          then (if bgs_of c1 c2 bgc < merge_threshold hp
                   \<and> token_prune_len hp < int (length t1) \<and> token_prune_len hp < int (length t2)
                then (tmp @ [t1 @ [SPACE] @ t2], insert t2 (insert t1 merged),
                      AList.update t2 ((if t1 = t2 then c1 * merge_threshold hp else c2) * merge_threshold hp)
                        (AList.update t1 (c1 * merge_threshold hp)
                           (AList.update (t1 @ [SPACE] @ t2) bgc tc)))
                else (tmp, merged, tc))
          else (tmp @ [t1, t2], merged, tc))"
proof -
  let ?tc1 = "AList.update (t1 @ [SPACE] @ t2) bgc tc"
  let ?tc2 = "AList.update t1 (c1 * merge_threshold hp) ?tc1"
  have g1: "dict_get ?tc1 t1 = Inr c1"
    using assms(1) compound_neq(1) [of t1 t2] by (intro dict_get_Some) (simp add: update_conv')
  have "map_of ?tc2 t2 = Some (if t1 = t2 then c1 * merge_threshold hp else c2)"
    using assms(2) compound_neq(2) [of t1 t2] by (simp add: update_conv')
  then have g2: "dict_get ?tc2 t2 = Inr (if t1 = t2 then c1 * merge_threshold hp else c2)"
    by (rule dict_get_Some)
  show ?thesis
    unfolding merge_step_def
    by (simp add: dict_get_Some [OF assms(1)] dict_get_Some [OF assms(2)] dict_get_Some [OF assms(3)]
          bgs_below_def assms(4) Let_def g1 g2 del: append.simps)
qed


subsection \<open>The loop keeps the counts defined and positive\<close>

lemma bgs_of_nonneg: "0 < c1 \<Longrightarrow> 0 < c2 \<Longrightarrow> 0 \<le> bgs_of c1 c2 bgc"
  by (simp add: bgs_of_def)

lemma counts_ok_step:
  assumes ok: "counts_ok ts (tmp, merged, tc)"
    and t1: "t1 \<in> set ts" and t2: "t2 \<in> set ts"
    and bc: "map_of bc (t1, t2) = Some bgc" and pos: "0 < bgc"
  shows "\<exists>s'. merge_step hp bc t1 t2 (tmp, merged, tc) = Inr s' \<and> counts_ok ts s'"
proof -
  from ok t1 t2 have "map_of tc t1 \<noteq> None" and "map_of tc t2 \<noteq> None"
    by (simp_all add: counts_ok_def)
  then obtain c1 c2 where
    c1: "map_of tc t1 = Some c1" and c2: "map_of tc t2 = Some c2"
    by blast
  from ok c1 c2 have p1: "0 < c1" and p2: "0 < c2"
    by (auto simp: counts_ok_def)
  then have nz: "c1 + c2 \<noteq> 0" by simp
  note spec = merge_step_spec [OF c1 c2 bc nz, of hp tmp merged]
  show ?thesis
  proof (cases "t1 \<notin> stopwords hp \<and> t2 \<notin> stopwords hp")
    case False
    with spec have "merge_step hp bc t1 t2 (tmp, merged, tc) = Inr (tmp @ [t1, t2], merged, tc)"
      by auto
    moreover have "counts_ok ts (tmp @ [t1, t2], merged, tc)"
      using ok t1 t2 by (auto simp: counts_ok_def)
    ultimately show ?thesis by blast
  next
    case ns: True
    show ?thesis
    proof (cases "bgs_of c1 c2 bgc < merge_threshold hp
                  \<and> token_prune_len hp < int (length t1) \<and> token_prune_len hp < int (length t2)")
      case False
      with spec ns have "merge_step hp bc t1 t2 (tmp, merged, tc) = Inr (tmp, merged, tc)"
        by auto
      with ok show ?thesis by blast
    next
      case True
      let ?thr = "merge_threshold hp"
      let ?tc' = "AList.update t2 ((if t1 = t2 then c1 * ?thr else c2) * ?thr)
                    (AList.update t1 (c1 * ?thr) (AList.update (t1 @ [SPACE] @ t2) bgc tc))"
      from True bgs_of_nonneg [OF p1 p2, of bgc] have thr: "0 < ?thr" by simp
      from spec ns True have
        "merge_step hp bc t1 t2 (tmp, merged, tc)
         = Inr (tmp @ [t1 @ [SPACE] @ t2], insert t2 (insert t1 merged), ?tc')"
        by simp
      moreover have "counts_ok ts (tmp @ [t1 @ [SPACE] @ t2], insert t2 (insert t1 merged), ?tc')"
        using ok pos p1 p2 thr
        by (auto simp: counts_ok_def update_conv' split: if_splits)
      ultimately show ?thesis by blast
    qed
  qed
qed

lemma counts_ok_start: "counts_ok ts ([], {}, counter ts)"
  by (auto simp: counts_ok_def map_of_counter count_list_pos split: if_splits)

lemma bigram_lookup:
  "Suc n < length ts \<Longrightarrow>
     map_of (counter (two_grams ts)) (ts ! n, ts ! Suc n)
     = Some (rat_of_nat (count_list (two_grams ts) (ts ! n, ts ! Suc n)))
     \<and> 0 < rat_of_nat (count_list (two_grams ts) (ts ! n, ts ! Suc n))"
  using two_grams_nth [of n ts] by (simp add: map_of_counter count_list_pos)

lemma merge_upto_ok:
  "n \<le> length ts - 1 \<Longrightarrow>
     \<exists>s. merge_upto hp (counter (two_grams ts)) ts n ([], {}, counter ts) = Inr s \<and> counts_ok ts s"
proof (induction n)
  case 0
  show ?case by (simp add: counts_ok_start)
next
  case (Suc n)
  then obtain tmp merged tc where
    r: "merge_upto hp (counter (two_grams ts)) ts n ([], {}, counter ts) = Inr (tmp, merged, tc)"
    and ok: "counts_ok ts (tmp, merged, tc)"
    by (metis Suc_leD prod_cases3)
  from Suc.prems have lt: "Suc n < length ts" by simp
  then have t1: "ts ! n \<in> set ts" and t2: "ts ! Suc n \<in> set ts"
    by simp_all
  from bigram_lookup [OF lt] counts_ok_step [OF ok t1 t2, of _ _ hp]
  show ?case by (simp add: r)
qed


lemma merge_pair_state:
  assumes "Suc n < length ts"
    and "merge_upto hp (counter (two_grams ts)) ts n ([], {}, counter ts) = Inr (tmp, merged, tc)"
  obtains c1 c2 where
    "map_of tc (ts ! n) = Some c1" "map_of tc (ts ! Suc n) = Some c2" "c1 + c2 \<noteq> 0"
proof -
  from assms(1) have "n \<le> length ts - 1" by simp
  from merge_upto_ok [OF this, of hp] assms(2) have ok: "counts_ok ts (tmp, merged, tc)"
    by simp
  from assms(1) have "ts ! n \<in> set ts" and "ts ! Suc n \<in> set ts"
    by simp_all
  with ok have "map_of tc (ts ! n) \<noteq> None" and "map_of tc (ts ! Suc n) \<noteq> None"
    by (simp_all add: counts_ok_def)
  then obtain c1 c2 where
    c: "map_of tc (ts ! n) = Some c1" "map_of tc (ts ! Suc n) = Some c2"
    by blast
  with ok have "0 < c1" and "0 < c2"
    by (auto simp: counts_ok_def)
  then have "c1 + c2 \<noteq> 0" by simp
  with c show thesis by (rule that)
qed







section \<open>No \<open>KeyError\<close>\<close>

lemma personalization_of_ok:
  "\<forall>t \<in> set ts. map_of tc t \<noteq> None \<Longrightarrow> \<exists>p. personalization_of tc ts acc = Inr p"
proof (induction ts arbitrary: acc)
  case Nil
  show ?case by simp
next
  case (Cons a ts)
  then obtain v where "map_of tc a = Some v" by auto
  then have "dict_get tc a = Inr v" by (rule dict_get_Some)
  with Cons show ?case by simp
qed

lemma merge_tokens_ok:
  "\<exists>st4. merge_tokens (compute_tf_scores E st None) = Inr st4
         \<and> (\<forall>t \<in> set (tokens st4). map_of (term_counts st4) t \<noteq> None)"
proof -
  let ?ts = "tokens st"
  from merge_upto_ok [of "length ?ts - 1" ?ts "hyperparameters st"] obtain tmp merged tc where
    r: "merge_upto (hyperparameters st) (counter (two_grams ?ts)) ?ts (length ?ts - 1)
          ([], {}, counter ?ts) = Inr (tmp, merged, tc)"
    and ok: "counts_ok ?ts (tmp, merged, tc)"
    by (metis order_refl prod_cases3)
  from ok have "\<forall>t \<in> set tmp. map_of tc t \<noteq> None"
    by (simp add: counts_ok_def)
  with r show ?thesis
    by (simp add: merge_tokens_def compute_tf_scores_def Let_def)
qed

lemma get_document_graph_error:
  assumes "\<forall>t \<in> set (tokens st). map_of (term_counts st) t \<noteq> None"
  shows "(\<exists>st'. get_document_graph E st weight = Inr st')
         \<or> get_document_graph E st weight = Inl PageRankError"
proof -
  from personalization_of_ok [OF assms] obtain p where
    "personalization_of (term_counts st) (tokens st) [] = Inr p" by blast
  then show ?thesis
    by (simp add: get_document_graph_def Let_def split: option.splits)
qed

lemma find_keywords_string_total:
  "(\<exists>out st'. find_keywords E st doc (ustr ''string'') = Inr (out, st'))
   \<or> find_keywords E st doc (ustr ''string'') = Inl PageRankError"
proof -
  obtain lines where p: "parse_input E doc (ustr ''string'') = Inr lines"
    by (cases doc) (simp_all add: parse_input_def ustr_def)
  from merge_tokens_ok obtain st4 where
    m: "merge_tokens (compute_tf_scores E (tokenize E (st\<lparr>document := join [SPACE] lines\<rparr>)) None) = Inr st4"
    and k: "\<forall>t \<in> set (tokens st4). map_of (term_counts st4) t \<noteq> None"
    by blast
  from get_document_graph_error [OF k, of E 1] show ?thesis
    by (auto simp: find_keywords_def p m Let_def)
qed


section \<open>The constructor and its shared default\<close>

lemma map_of_set_default:
  "map_of (set_default k v d) k' =
     (if k' = k \<and> map_of d k = None then Some v else map_of d k')"
  by (auto simp: set_default_def update_conv' map_of_eq_None_iff)

lemma map_of_fill_defaults:
  "map_of (fill_defaults E d) k =
     (case map_of d k of Some v \<Rightarrow> Some v | None \<Rightarrow> default_value E k)"
  by (simp add: fill_defaults_def map_of_set_default default_value_def split: option.splits)

lemma option_names_filled: "list_all (\<lambda>k. map_of (fill_defaults E d) k \<noteq> None) option_names"
  by (simp add: option_names_def map_of_fill_defaults default_value_def split: option.splits)

text \<open>
  Claim C10. The constructor writes into the mapping it is given: afterwards the
  object at the caller's reference holds the entries it had and, for every option
  it lacked, the default; no other object changes. Two detectors built without the
  argument hold the same reference, that of the one default object, so what is
  written through one is read through the other.
\<close>

theorem constructor_fills_and_shares:
  assumes "H a = Some d" and "H dflt = Some d0"
  shows "(\<exists>H1 obj d'.
            init E dflt H (Some a) vb = Some (H1, obj)
            \<and> hyperparameters_ref obj = a
            \<and> H1 a = Some d'
            \<and> (\<forall>k. map_of d' k = (case map_of d k of Some v \<Rightarrow> Some v | None \<Rightarrow> default_value E k))
            \<and> list_all (\<lambda>k. map_of d' k \<noteq> None) option_names
            \<and> (\<forall>b. b \<noteq> a \<longrightarrow> H1 b = H b))
         \<and> (\<exists>H1 obj1 H2 obj2.
            init E dflt H None vb = Some (H1, obj1)
            \<and> init E dflt H1 None vb' = Some (H2, obj2)
            \<and> hyperparameters_ref obj1 = dflt
            \<and> hyperparameters_ref obj2 = hyperparameters_ref obj1
            \<and> (\<forall>d'. (H2(hyperparameters_ref obj1 \<mapsto> d')) (hyperparameters_ref obj2) = Some d'))"
proof -
  have "init E dflt H (Some a) vb
        = Some (H(a \<mapsto> fill_defaults E d), \<lparr>verbose = vb, hyperparameters_ref = a\<rparr>)"
    by (simp add: init_def assms(1))
  then have first: "\<exists>H1 obj d'.
            init E dflt H (Some a) vb = Some (H1, obj)
            \<and> hyperparameters_ref obj = a
            \<and> H1 a = Some d'
            \<and> (\<forall>k. map_of d' k = (case map_of d k of Some v \<Rightarrow> Some v | None \<Rightarrow> default_value E k))
            \<and> list_all (\<lambda>k. map_of d' k \<noteq> None) option_names
            \<and> (\<forall>b. b \<noteq> a \<longrightarrow> H1 b = H b)"
    using map_of_fill_defaults [of E d] option_names_filled [of E d] by simp
  let ?H1 = "H(dflt \<mapsto> fill_defaults E d0)"
  have i1: "init E dflt H None vb = Some (?H1, \<lparr>verbose = vb, hyperparameters_ref = dflt\<rparr>)"
    by (simp add: init_def assms(2))
  have i2: "init E dflt ?H1 None vb'
            = Some (?H1(dflt \<mapsto> fill_defaults E (fill_defaults E d0)),
                    \<lparr>verbose = vb', hyperparameters_ref = dflt\<rparr>)"
    by (simp add: init_def)
  have second: "\<exists>H1 obj1 H2 obj2.
            init E dflt H None vb = Some (H1, obj1)
            \<and> init E dflt H1 None vb' = Some (H2, obj2)
            \<and> hyperparameters_ref obj1 = dflt
            \<and> hyperparameters_ref obj2 = hyperparameters_ref obj1
            \<and> (\<forall>d'. (H2(hyperparameters_ref obj1 \<mapsto> d')) (hyperparameters_ref obj2) = Some d')"
    unfolding i1 using i2 by simp
  from first second show ?thesis by blast
qed

theorem constructor_fills_and_shares_witness:
  "[0 \<mapsto> [], Suc 0 \<mapsto> [(''num_keywords'', VInt 5)]] (Suc 0) = Some [(''num_keywords'', VInt 5)]
   \<and> [0 \<mapsto> [], Suc 0 \<mapsto> [(''num_keywords'', VInt 5)]] 0 = Some []
   \<and> map_option (\<lambda>p. (fst p (Suc 0), hyperparameters_ref (snd p)))
        (init ascii 0 [0 \<mapsto> [], Suc 0 \<mapsto> [(''num_keywords'', VInt 5)]] (Some (Suc 0)) True)
      = Some (Some [(''num_keywords'', VInt 5), (''token_prune_len'', VInt 1),
                    (''alpha'', VNum (1 / 10)), (''max_iter'', VInt 100),
                    (''merge_threshold'', VNum (1 / 2)), (''deduplication'', VBool True),
                    (''stopwords'', VSet {})], Suc 0)
   \<and> map_option (\<lambda>p. hyperparameters_ref (snd p))
        (init ascii 0 [0 \<mapsto> [], Suc 0 \<mapsto> [(''num_keywords'', VInt 5)]] None True)
      = Some 0"
proof -
  let ?H = "[0 \<mapsto> [], Suc 0 \<mapsto> [(''num_keywords'', VInt 5)]] :: store"
  have a: "?H (Suc 0) = Some [(''num_keywords'', VInt 5)]" and b: "?H 0 = Some []"
    by simp_all
  from constructor_fills_and_shares [OF a b, of ascii True True] obtain H1 obj1 where
    "init ascii 0 ?H None True = Some (H1, obj1)" and "hyperparameters_ref obj1 = 0"
    by blast
  then have c: "map_option (\<lambda>p. hyperparameters_ref (snd p)) (init ascii 0 ?H None True) = Some 0"
    by simp
  have d: "map_option (\<lambda>p. (fst p (Suc 0), hyperparameters_ref (snd p)))
        (init ascii 0 ?H (Some (Suc 0)) True)
      = Some (Some [(''num_keywords'', VInt 5), (''token_prune_len'', VInt 1),
                    (''alpha'', VNum (1 / 10)), (''max_iter'', VInt 100),
                    (''merge_threshold'', VNum (1 / 2)), (''deduplication'', VBool True),
                    (''stopwords'', VSet {})], Suc 0)"
    by (simp add: init_def fill_defaults_def set_default_def ascii_def)
  from a b c d show ?thesis by blast
qed


end
